theory Spec2Isabelle
  imports Complex_Main
begin

section \<open>Configuration constants and rectangles\<close>

text \<open>
  The constants of the CONFIG block of \<^verbatim>\<open>XLOS_Pro.py\<close>.  \<open>W\<close> and \<open>H\<close> are the
  size the surface is created with; the current size of the surface is part of the state
  (field \<open>screen\<close>), because a VIDEORESIZE event replaces it.
\<close>

definition W :: int where [simp]: "W = 1280"
definition H :: int where [simp]: "H = 720"
definition TITLEBAR_H :: int where [simp]: "TITLEBAR_H = 32"
definition TASKBAR_H :: int where [simp]: "TASKBAR_H = 44"
definition RESIZE_GRIP :: int where [simp]: "RESIZE_GRIP = 12"
definition MIN_W :: int where [simp]: "MIN_W = 220"
definition MIN_H :: int where [simp]: "MIN_H = 140"
definition ICON_SIZE :: int where [simp]: "ICON_SIZE = 64"

type_synonym point = "int \<times> int"

text \<open>
  \<^verbatim>\<open>pygame.Rect\<close>: integer position and size.  \<^verbatim>\<open>collidepoint\<close> is true for the
  points with \<open>x \<le> px < x + w\<close> and \<open>y \<le> py < y + h\<close>; \<^verbatim>\<open>right\<close> and \<^verbatim>\<open>bottom\<close>
  are \<open>x + w\<close> and \<open>y + h\<close>.  Coordinates are unbounded integers here.
\<close>

record rect =
  rx :: int
  ry :: int
  rw :: int
  rh :: int

definition Rect :: "int \<Rightarrow> int \<Rightarrow> int \<Rightarrow> int \<Rightarrow> rect" where
  "Rect x y w h = \<lparr>rx = x, ry = y, rw = w, rh = h\<rparr>"

definition right :: "rect \<Rightarrow> int" where
  "right r = rx r + rw r"

definition bottom :: "rect \<Rightarrow> int" where
  "bottom r = ry r + rh r"

definition collidepoint :: "rect \<Rightarrow> point \<Rightarrow> bool" where
  "collidepoint r p \<longleftrightarrow>
     rx r \<le> fst p \<and> fst p < rx r + rw r \<and> ry r \<le> snd p \<and> snd p < ry r + rh r"

section \<open>Events, errors and hosted applications\<close>

text \<open>
  The pygame events the window manager distinguishes, with the attributes it reads:
  \<^verbatim>\<open>button\<close> and \<^verbatim>\<open>pos\<close> of the mouse events, \<^verbatim>\<open>key\<close> of the key events, the
  new size of a VIDEORESIZE.  \<open>OTHER n\<close> stands for every other event type.
\<close>

datatype key = K_ESCAPE | K_TAB | K_OTHER nat

datatype event =
    MOUSEBUTTONDOWN int point
  | MOUSEBUTTONUP int point
  | MOUSEMOTION point
  | KEYDOWN key
  | KEYUP key
  | QUIT
  | VIDEORESIZE int int
  | OTHER nat

text \<open>
  The exceptions the modelled code can raise.  \<open>SystemExit\<close> is what \<^verbatim>\<open>sys.exit()\<close>
  raises after \<^verbatim>\<open>pygame.quit()\<close>.
\<close>

datatype error = KeyError | ValueError | AttributeError | SystemExit

text \<open>
  The hosted applications are outside the window manager; it only constructs them, reads
  their \<^verbatim>\<open>name\<close> and calls \<^verbatim>\<open>handle_event(e, rect)\<close> on them.  An application is
  therefore modelled by its name and the sequence of calls it has received, in order.
\<close>

record app =
  app_name :: string
  received :: "(event \<times> rect) list"

definition app_handle_event :: "app \<Rightarrow> event \<Rightarrow> rect \<Rightarrow> app" where
  "app_handle_event a e r = a\<lparr>received := received a @ [(e, r)]\<rparr>"

text \<open>
  \<^verbatim>\<open>APP_MAP\<close>: registry key and the \<^verbatim>\<open>name\<close> attribute of the class it maps to, in
  the order of the dictionary literal.
\<close>

definition APP_MAP :: "(string \<times> string) list" where
  "APP_MAP =
     [(''Notes'', ''Notes''), (''Sketch'', ''Sketch''), (''Settings'', ''Settings''),
      (''Calculator'', ''Calculator''), (''Snake'', ''Snake''), (''TicTacToe'', ''TicTacToe''),
      (''Finder'', ''Finder''), (''XL DRIFT'', ''XL DRIFT''), (''ChatApp'', ''ChatApp'')]"

definition new_app :: "string \<Rightarrow> app" where
  "new_app cls_name = \<lparr>app_name = cls_name, received = []\<rparr>"

section \<open>Window\<close>

text \<open>
  The three title buttons; the source labels them \<^verbatim>\<open>'x'\<close> (close), a box (maximise
  toggle) and a dash (minimise).
\<close>

datatype label = BtnClose | BtnMax | BtnMin

text \<open>
  The attributes of a \<^verbatim>\<open>Window\<close> object.  \<open>btns\<close> is \<^verbatim>\<open>self._btns\<close>, which only
  \<^verbatim>\<open>draw\<close> creates: \<open>None\<close> until the window has been drawn.  \<open>pre_max_alias\<close> records
  that \<^verbatim>\<open>self._pre_max_rect\<close> is the same object as \<^verbatim>\<open>self.rect\<close> (after
  \<^verbatim>\<open>win.rect = win._pre_max_rect\<close>), so that an in-place change of the one shows in the
  other.  \<open>z\<close> is the sequence number taken from \<^verbatim>\<open>Window._seq\<close>.
\<close>

record window =
  app :: app
  title :: string
  wrect :: rect
  minimized :: bool
  maximized :: bool
  dragging :: bool
  resizing :: bool
  drag_offset :: point
  pre_max_rect :: rect
  pre_max_alias :: bool
  btns :: "(label \<times> rect) list option"
  z :: nat

definition new_window :: "app \<Rightarrow> string \<Rightarrow> rect \<Rightarrow> nat \<Rightarrow> window" where
  "new_window a t r n =
     \<lparr>app = a, title = t, wrect = r, minimized = False, maximized = False,
      dragging = False, resizing = False, drag_offset = (0, 0),
      pre_max_rect = r, pre_max_alias = False, btns = None, z = n\<rparr>"

definition titlebar_rect :: "window \<Rightarrow> rect" where
  "titlebar_rect win = Rect (rx (wrect win)) (ry (wrect win)) (rw (wrect win)) TITLEBAR_H"

definition content_rect :: "window \<Rightarrow> rect" where
  "content_rect win =
     (wrect win)\<lparr>ry := ry (wrect win) + TITLEBAR_H, rh := rh (wrect win) - TITLEBAR_H\<rparr>"

definition grip_rect :: "window \<Rightarrow> rect" where
  "grip_rect win =
     Rect (right (wrect win) - RESIZE_GRIP) (bottom (wrect win) - RESIZE_GRIP)
          RESIZE_GRIP RESIZE_GRIP"

text \<open>
  \<^verbatim>\<open>_hit_title_buttons\<close>: the label of the first button rectangle that holds the point.
  Reading \<^verbatim>\<open>self._btns\<close> before the first \<^verbatim>\<open>draw\<close> raises AttributeError.
\<close>

fun first_hit :: "('a \<times> rect) list \<Rightarrow> point \<Rightarrow> 'a option" where
  "first_hit [] pos = None"
| "first_hit ((l, r) # bs) pos = (if collidepoint r pos then Some l else first_hit bs pos)"

definition hit_title_buttons :: "window \<Rightarrow> point \<Rightarrow> error + label option" where
  "hit_title_buttons win pos =
     (case btns win of None \<Rightarrow> Inl AttributeError | Some bs \<Rightarrow> Inr (first_hit bs pos))"

text \<open>
  An in-place change of \<^verbatim>\<open>self.rect\<close> (\<^verbatim>\<open>self.rect.x = ...\<close>): it is seen through
  \<^verbatim>\<open>_pre_max_rect\<close> too while both names denote one object.
\<close>

definition mutate_rect :: "(rect \<Rightarrow> rect) \<Rightarrow> window \<Rightarrow> window" where
  "mutate_rect f win =
     win\<lparr>wrect := f (wrect win),
         pre_max_rect := (if pre_max_alias win then f (wrect win) else pre_max_rect win)\<rparr>"

text \<open>The two blocks of the MOUSEMOTION branch of \<^verbatim>\<open>Window.handle_event\<close>.\<close>

definition motion_drag :: "point \<Rightarrow> point \<Rightarrow> window \<Rightarrow> window" where
  "motion_drag scr pos win =
     (if dragging win then
        (let nx = fst pos - fst (drag_offset win);
             ny = snd pos - snd (drag_offset win);
             sw = fst scr; sh = snd scr;
             nx' = max (- rw (wrect win) + 60) (min nx (sw - 60));
             ny' = max 0 (min ny (sh - TASKBAR_H - TITLEBAR_H))
         in mutate_rect (\<lambda>r. r\<lparr>rx := nx', ry := ny'\<rparr>) win)
      else win)"

definition motion_resize :: "point \<Rightarrow> point \<Rightarrow> window \<Rightarrow> window" where
  "motion_resize scr pos win =
     (if resizing win then
        (let nx = max MIN_W (fst pos - rx (wrect win));
             ny = max MIN_H (snd pos - ry (wrect win));
             sw = fst scr; sh = snd scr;
             nx' = min nx (sw - rx (wrect win) - 10);
             ny' = min ny (sh - TASKBAR_H - ry (wrect win) - 10)
         in mutate_rect (\<lambda>r. r\<lparr>rw := nx', rh := ny'\<rparr>) win)
      else win)"

text \<open>
  The last two lines of \<^verbatim>\<open>Window.handle_event\<close>: the event goes to the hosted
  application with the content rectangle of the frame as it is now.
\<close>

definition forward_to_app :: "window \<Rightarrow> event \<Rightarrow> window" where
  "forward_to_app win e =
     (if \<not> minimized win
      then win\<lparr>app := app_handle_event (app win) e (content_rect win)\<rparr>
      else win)"

text \<open>
  \<^verbatim>\<open>Window.handle_event\<close>.  The first argument is \<^verbatim>\<open>screen.get_size()\<close>.  The result
  is the returned value (a label when a title button was hit, \<^verbatim>\<open>None\<close> otherwise) and
  the window after the call.
\<close>

definition window_handle_event :: "point \<Rightarrow> window \<Rightarrow> event \<Rightarrow> error + (label option \<times> window)" where
  "window_handle_event scr win e =
     (if minimized win then Inr (None, win)
      else case e of
        MOUSEBUTTONDOWN b pos \<Rightarrow>
          (if b = 1 then
             (if collidepoint (titlebar_rect win) pos then
                (case hit_title_buttons win pos of
                   Inl err \<Rightarrow> Inl err
                 | Inr (Some btn) \<Rightarrow> Inr (Some btn, win)
                 | Inr None \<Rightarrow>
                     Inr (None,
                       forward_to_app
                         (win\<lparr>dragging := True,
                              drag_offset := (fst pos - rx (wrect win), snd pos - ry (wrect win))\<rparr>)
                         e))
              else if collidepoint (grip_rect win) pos then
                Inr (None, forward_to_app (win\<lparr>resizing := True\<rparr>) e)
              else Inr (None, forward_to_app win e))
           else Inr (None, forward_to_app win e))
      | MOUSEBUTTONUP b pos \<Rightarrow>
          (if b = 1 then Inr (None, forward_to_app (win\<lparr>dragging := False, resizing := False\<rparr>) e)
           else Inr (None, forward_to_app win e))
      | MOUSEMOTION pos \<Rightarrow>
          Inr (None, forward_to_app (motion_resize scr pos (motion_drag scr pos win)) e)
      | _ \<Rightarrow> Inr (None, forward_to_app win e))"

text \<open>
  The part of \<^verbatim>\<open>Window.draw\<close> that changes the window: the three title-button
  rectangles, right-aligned in the title bar, are stored in \<^verbatim>\<open>self._btns\<close>.  A minimised
  window is not drawn.
\<close>

definition window_draw :: "window \<Rightarrow> window" where
  "window_draw win =
     (if minimized win then win
      else (let t = titlebar_rect win; bx = right t - 28
            in win\<lparr>btns := Some [(BtnClose, Rect bx (ry t + 6) 22 18),
                                  (BtnMax, Rect (bx - 26) (ry t + 6) 22 18),
                                  (BtnMin, Rect (bx - 52) (ry t + 6) 22 18)]\<rparr>))"

section \<open>Desktop and the module state\<close>

text \<open>
  A desktop icon is a dictionary with the keys \<^verbatim>\<open>name\<close> and \<^verbatim>\<open>rect\<close> and, once
  clicked, \<^verbatim>\<open>last_click\<close>, \<^verbatim>\<open>dragging\<close> and \<^verbatim>\<open>off\<close>.  The key \<^verbatim>\<open>dragging\<close> only
  ever holds \<^verbatim>\<open>True\<close>, so \<open>ico_dragging\<close> says that the key is present.  Times
  (\<^verbatim>\<open>time.time()\<close>, in seconds) are real numbers.
\<close>

record icon =
  ico_name :: string
  ico_rect :: rect
  last_click :: "real option"
  ico_dragging :: bool
  off :: "point option"

text \<open>
  The state the window manager works on: the attributes of the \<^verbatim>\<open>Desktop\<close> object and
  the module-level state it reads and writes.  Window objects live in \<open>heap\<close> and are
  named by reference; the reference of a window is the sequence number it received from
  \<^verbatim>\<open>Window._seq\<close> (field \<open>seq\<close>), which is different for every constructed window, so
  that Python's \<^verbatim>\<open>is\<close> and \<^verbatim>\<open>in\<close> on windows are equality and membership of
  references.  \<open>windows\<close> is the z-order list \<^verbatim>\<open>Desktop.windows\<close>, last element topmost.
  The attributes \<^verbatim>\<open>start_btn\<close>, \<^verbatim>\<open>task_buttons\<close>, \<^verbatim>\<open>menu_items\<close>,
  \<^verbatim>\<open>power_btn\<close> and \<^verbatim>\<open>power_rect\<close> exist only once the drawing code has created them.
  \<open>drag_icon\<close> is \<^verbatim>\<open>_drag_icon\<close>, as an index into \<open>icons\<close>.  \<open>screen\<close> is
  \<^verbatim>\<open>screen.get_size()\<close> and \<open>running\<close> the flag of the main loop.
\<close>

record state =
  icons :: "icon list"
  windows :: "nat list"
  start_open :: bool
  menu_rect :: rect
  power_open :: bool
  sleeping :: bool
  start_btn :: "rect option"
  task_buttons :: "(rect \<times> nat) list option"
  menu_items :: "(rect \<times> string) list option"
  power_btn :: "rect option"
  power_rect :: "rect option"
  drag_icon :: "nat option"
  heap :: "nat \<Rightarrow> window"
  seq :: nat
  screen :: point
  running :: bool

text \<open>
  What an event handler reads from the environment besides the event:
  \<^verbatim>\<open>pygame.mouse.get_pos()\<close>, \<^verbatim>\<open>time.time()\<close> and whether
  \<^verbatim>\<open>pygame.key.get_mods()\<close> has the Alt bit.
\<close>

record env =
  mouse :: point
  now :: real
  alt_held :: bool

definition upd_win :: "nat \<Rightarrow> (window \<Rightarrow> window) \<Rightarrow> state \<Rightarrow> state" where
  "upd_win r f s = s\<lparr>heap := (heap s)(r := f (heap s r))\<rparr>"

text \<open>
  \<^verbatim>\<open>Desktop.focus\<close>.  \<^verbatim>\<open>list.remove\<close> raises ValueError when the window is not in
  the list; it removes the first occurrence otherwise.
\<close>

definition focus :: "state \<Rightarrow> nat \<Rightarrow> error + state" where
  "focus s win =
     (if windows s \<noteq> [] \<and> last (windows s) \<noteq> win then
        (if win \<in> set (windows s)
         then Inr (s\<lparr>windows := remove1 win (windows s) @ [win]\<rparr>)
         else Inl ValueError)
      else Inr s)"

text \<open>\<^verbatim>\<open>Desktop.close\<close>.\<close>

definition close :: "state \<Rightarrow> nat \<Rightarrow> state" where
  "close s win =
     (if win \<in> set (windows s) then s\<lparr>windows := remove1 win (windows s)\<rparr> else s)"

text \<open>
  \<^verbatim>\<open>Desktop.spawn_window\<close>.  \<^verbatim>\<open>APP_MAP[app_name]\<close> raises KeyError for a name that is
  not a key, before anything is changed.  Otherwise the application is constructed, then
  the window (taking the next sequence number), which is appended and focused.  The
  result is the new state and the reference of the new window.
\<close>

definition spawn_window :: "state \<Rightarrow> string \<Rightarrow> point \<Rightarrow> error + (state \<times> nat)" where
  "spawn_window s nm sz =
     (let n = int (length (windows s));
          r = Rect (180 + n * 16) (120 + n * 12) (max MIN_W (fst sz)) (max MIN_H (snd sz))
      in case map_of APP_MAP nm of
           None \<Rightarrow> Inl KeyError
         | Some cls \<Rightarrow>
             (let app_inst = new_app cls;
                  w = new_window app_inst (app_name app_inst) r (seq s);
                  s1 = s\<lparr>heap := (heap s)(seq s := w), seq := Suc (seq s),
                         windows := windows s @ [seq s]\<rparr>
              in case focus s1 (seq s) of
                   Inl err \<Rightarrow> Inl err
                 | Inr s2 \<Rightarrow> Inr (s2, seq s)))"

text \<open>
  An event handler either returns (\<open>Return\<close>) or falls through to the code after it
  (\<open>Continue\<close>), in both cases with the state it has reached.
\<close>

datatype 'a flow = Return 'a | Continue 'a

definition and_then :: "error + 'a flow \<Rightarrow> ('a \<Rightarrow> error + 'a flow) \<Rightarrow> error + 'a flow" where
  "and_then r f =
     (case r of Inl err \<Rightarrow> Inl err | Inr (Return s) \<Rightarrow> Inr (Return s) | Inr (Continue s) \<Rightarrow> f s)"

definition returning :: "error + 'a \<Rightarrow> error + 'a flow" where
  "returning r = (case r of Inl err \<Rightarrow> Inl err | Inr s \<Rightarrow> Inr (Return s))"

definition continuing :: "error + 'a \<Rightarrow> error + 'a flow" where
  "continuing r = (case r of Inl err \<Rightarrow> Inl err | Inr s \<Rightarrow> Inr (Continue s))"

subsection \<open>The left-click chain of \<^verbatim>\<open>Desktop.handle_event\<close>\<close>

text \<open>Start button: \<^verbatim>\<open>hasattr(self, "start_btn") and self.start_btn.collidepoint(mouse)\<close>.\<close>

definition click_start :: "state \<Rightarrow> point \<Rightarrow> error + state flow" where
  "click_start s m =
     (case start_btn s of
        Some b \<Rightarrow> if collidepoint b m then Inr (Return (s\<lparr>start_open := \<not> start_open s\<rparr>))
                  else Inr (Continue s)
      | None \<Rightarrow> Inr (Continue s))"

text \<open>
  Start menu: a menu item spawns its application; the power button opens the power
  dialog; a click outside the menu and the start button closes the menu and goes on.
  Reading \<^verbatim>\<open>self.start_btn\<close> in the last test raises AttributeError when it does not
  exist; the test of the menu rectangle comes first and short-circuits.
\<close>

definition click_menu :: "state \<Rightarrow> point \<Rightarrow> error + state flow" where
  "click_menu s m =
     (if start_open s then
        (case first_hit (case menu_items s of None \<Rightarrow> [] | Some its \<Rightarrow> map (\<lambda>(r, nm). (nm, r)) its) m of
           Some nm \<Rightarrow>
             (case spawn_window s nm (520, 360) of
                Inl err \<Rightarrow> Inl err
              | Inr (s1, _) \<Rightarrow> Inr (Return (s1\<lparr>start_open := False\<rparr>)))
         | None \<Rightarrow>
             (if (case power_btn s of Some pb \<Rightarrow> collidepoint pb m | None \<Rightarrow> False)
              then Inr (Return (s\<lparr>power_open := True, start_open := False\<rparr>))
              else if collidepoint (menu_rect s) m then Inr (Continue s)
              else (case start_btn s of
                      None \<Rightarrow> Inl AttributeError
                    | Some b \<Rightarrow> if \<not> collidepoint b m then Inr (Continue (s\<lparr>start_open := False\<rparr>))
                                else Inr (Continue s))))
      else Inr (Continue s))"

text \<open>
  Desktop icons: the first icon under the pointer.  A click less than 0.35 seconds after
  the recorded one (\<^verbatim>\<open>last_click\<close> present and not zero) spawns the icon's application
  and resets \<^verbatim>\<open>last_click\<close> to zero; any other click records the time and starts a drag.
\<close>

fun find_icon :: "icon list \<Rightarrow> point \<Rightarrow> nat \<Rightarrow> nat option" where
  "find_icon [] m i = None"
| "find_icon (ico # rest) m i =
     (if collidepoint (ico_rect ico) m then Some i else find_icon rest m (Suc i))"

definition click_icons :: "state \<Rightarrow> point \<Rightarrow> real \<Rightarrow> error + state flow" where
  "click_icons s m t =
     (case find_icon (icons s) m 0 of
        None \<Rightarrow> Inr (Continue s)
      | Some i \<Rightarrow>
          (let ico = icons s ! i in
           if (case last_click ico of None \<Rightarrow> False | Some t0 \<Rightarrow> t0 \<noteq> 0 \<and> t - t0 < 35 / 100)
           then (case spawn_window s (ico_name ico) (520, 360) of
                   Inl err \<Rightarrow> Inl err
                 | Inr (s1, _) \<Rightarrow>
                     Inr (Return (s1\<lparr>icons := (icons s1)[i := ico\<lparr>last_click := Some 0\<rparr>]\<rparr>)))
           else Inr (Return
                  (s\<lparr>icons := (icons s)[i := ico\<lparr>last_click := Some t, ico_dragging := True,
                                                 off := Some (fst m - rx (ico_rect ico),
                                                              snd m - ry (ico_rect ico))\<rparr>],
                     drag_icon := Some i\<rparr>))))"

text \<open>
  Taskbar buttons: the first button under the pointer, from the list the last drawing of
  the taskbar stored (absent: no buttons).
\<close>

fun find_button :: "(rect \<times> nat) list \<Rightarrow> point \<Rightarrow> nat option" where
  "find_button [] m = None"
| "find_button ((b, win) # rest) m = (if collidepoint b m then Some win else find_button rest m)"

definition click_taskbar :: "state \<Rightarrow> point \<Rightarrow> error + state flow" where
  "click_taskbar s m =
     (case find_button (case task_buttons s of None \<Rightarrow> [] | Some bs \<Rightarrow> bs) m of
        None \<Rightarrow> Inr (Continue s)
      | Some win \<Rightarrow>
          (if minimized (heap s win)
           then returning (focus (upd_win win (\<lambda>w. w\<lparr>minimized := False\<rparr>) s) win)
           else if windows s \<noteq> [] \<and> last (windows s) = win
                then Inr (Return (upd_win win (\<lambda>w. w\<lparr>minimized := True\<rparr>) s))
                else returning (focus s win)))"

text \<open>
  The maximise toggle, written inline in \<^verbatim>\<open>Desktop.handle_event\<close>.  Maximising stores a
  copy of the frame and installs a new rectangle; restoring makes \<^verbatim>\<open>rect\<close> the very
  object \<^verbatim>\<open>_pre_max_rect\<close>.
\<close>

definition toggle_maximize :: "point \<Rightarrow> window \<Rightarrow> window" where
  "toggle_maximize scr win =
     (if \<not> maximized win
      then win\<lparr>pre_max_rect := wrect win, pre_max_alias := False,
               wrect := Rect 8 8 (fst scr - 16) (snd scr - TASKBAR_H - 16),
               maximized := True\<rparr>
      else win\<lparr>wrect := pre_max_rect win, pre_max_alias := True, maximized := False\<rparr>)"

text \<open>
  Windows, topmost first (the argument is the reversed z-order): the first window that is
  not minimised and holds the pointer.  A title button acts and returns; anything else
  focuses the window and leaves the loop.
\<close>

fun click_windows :: "state \<Rightarrow> point \<Rightarrow> nat list \<Rightarrow> error + state flow" where
  "click_windows s m [] = Inr (Continue s)"
| "click_windows s m (r # rs) =
     (if minimized (heap s r) then click_windows s m rs
      else if collidepoint (wrect (heap s r)) m then
        (if collidepoint (titlebar_rect (heap s r)) m then
           (case hit_title_buttons (heap s r) m of
              Inl err \<Rightarrow> Inl err
            | Inr (Some BtnClose) \<Rightarrow> Inr (Return (close s r))
            | Inr (Some BtnMin) \<Rightarrow> Inr (Return (upd_win r (\<lambda>w. w\<lparr>minimized := True\<rparr>) s))
            | Inr (Some BtnMax) \<Rightarrow> returning (focus (upd_win r (toggle_maximize (screen s)) s) r)
            | Inr None \<Rightarrow> continuing (focus s r))
         else continuing (focus s r))
      else click_windows s m rs)"

definition click_phase :: "state \<Rightarrow> env \<Rightarrow> event \<Rightarrow> error + state flow" where
  "click_phase s ev e =
     (case e of
        MOUSEBUTTONDOWN b pos \<Rightarrow>
          (if b = 1 then
             and_then (click_start s (mouse ev)) (\<lambda>s.
             and_then (click_menu s (mouse ev)) (\<lambda>s.
             and_then (click_icons s (mouse ev) (now ev)) (\<lambda>s.
             and_then (click_taskbar s (mouse ev)) (\<lambda>s.
             click_windows s (mouse ev) (rev (windows s))))))
           else Inr (Continue s))
      | _ \<Rightarrow> Inr (Continue s))"

subsection \<open>Power dialog, forwarding and global keys\<close>

datatype cmd = Shutdown | Restart | Sleep | Cancel

definition power_labels :: "(int \<times> cmd) list" where
  "power_labels = [(0, Shutdown), (1, Restart), (2, Sleep), (3, Cancel)]"

text \<open>The rectangle of the \<open>i\<close>-th action of the power dialog, from \<^verbatim>\<open>self.power_rect\<close>.\<close>

definition power_action_rect :: "rect \<Rightarrow> int \<Rightarrow> rect" where
  "power_action_rect pr i = Rect (rx pr + 24 + i * (92 + 12)) (ry pr + 64) 92 40"

definition minimize_all :: "state \<Rightarrow> state" where
  "minimize_all s = fold (\<lambda>r s. upd_win r (\<lambda>w. w\<lparr>minimized := True\<rparr>) s) (windows s) s"

text \<open>
  What a hit on an action does, after \<^verbatim>\<open>self.power_open = False\<close>.  Shutdown leaves the
  program through \<^verbatim>\<open>sys.exit()\<close>.
\<close>

definition power_cmd :: "state \<Rightarrow> cmd \<Rightarrow> error + state flow" where
  "power_cmd s c =
     (let s1 = s\<lparr>power_open := False\<rparr> in
      case c of
        Shutdown \<Rightarrow> Inl SystemExit
      | Restart \<Rightarrow>
          (case spawn_window (s1\<lparr>windows := []\<rparr>) ''Notes'' (540, 420) of
             Inl err \<Rightarrow> Inl err
           | Inr (s2, _) \<Rightarrow> Inr (Return s2))
      | Sleep \<Rightarrow> Inr (Return ((minimize_all s1)\<lparr>sleeping := True\<rparr>))
      | Cancel \<Rightarrow> Inr (Return s1))"

fun power_loop :: "state \<Rightarrow> rect \<Rightarrow> point \<Rightarrow> (int \<times> cmd) list \<Rightarrow> error + state flow" where
  "power_loop s pr pos [] = Inr (Continue s)"
| "power_loop s pr pos ((i, c) # rest) =
     (if collidepoint (power_action_rect pr i) pos then power_cmd s c
      else power_loop s pr pos rest)"

text \<open>
  The power dialog tests the position of the event (\<^verbatim>\<open>e.pos\<close>), not the pointer.
  \<^verbatim>\<open>self.power_rect\<close> exists only after the dialog has been drawn.
\<close>

definition power_phase :: "state \<Rightarrow> event \<Rightarrow> error + state flow" where
  "power_phase s e =
     (if power_open s then
        (case e of
           MOUSEBUTTONDOWN b pos \<Rightarrow>
             (if b = 1 then
                (case power_rect s of
                   None \<Rightarrow> Inl AttributeError
                 | Some pr \<Rightarrow> power_loop s pr pos power_labels)
              else Inr (Continue s))
         | _ \<Rightarrow> Inr (Continue s))
      else Inr (Continue s))"

text \<open>
  \<^verbatim>\<open># forward to focused window\<close>: the topmost window that is not minimised and holds
  the pointer handles the event (the argument is the reversed z-order).
\<close>

fun forward_focused :: "state \<Rightarrow> event \<Rightarrow> point \<Rightarrow> nat list \<Rightarrow> error + state" where
  "forward_focused s e m [] = Inr s"
| "forward_focused s e m (r # rs) =
     (if \<not> minimized (heap s r) \<and> collidepoint (wrect (heap s r)) m then
        (case window_handle_event (screen s) (heap s r) e of
           Inl err \<Rightarrow> Inl err
         | Inr (_, w') \<Rightarrow> Inr (s\<lparr>heap := (heap s)(r := w')\<rparr>))
      else forward_focused s e m rs)"

text \<open>Escape closes the start menu; Alt+Tab moves the bottom window to the top.\<close>

definition global_keys :: "state \<Rightarrow> env \<Rightarrow> event \<Rightarrow> state" where
  "global_keys s ev e =
     (case e of
        KEYDOWN k \<Rightarrow>
          (let s1 = (if k = K_ESCAPE \<and> start_open s then s\<lparr>start_open := False\<rparr> else s) in
           if k = K_TAB \<and> alt_held ev then
             (case windows s1 of [] \<Rightarrow> s1 | w # ws \<Rightarrow> s1\<lparr>windows := ws @ [w]\<rparr>)
           else s1)
      | _ \<Rightarrow> s)"

text \<open>\<^verbatim>\<open>Desktop.handle_event\<close>.\<close>

definition is_wake :: "event \<Rightarrow> bool" where
  "is_wake e = (case e of MOUSEBUTTONDOWN _ _ \<Rightarrow> True | KEYDOWN _ \<Rightarrow> True | _ \<Rightarrow> False)"

definition desktop_handle_event :: "state \<Rightarrow> env \<Rightarrow> event \<Rightarrow> error + state" where
  "desktop_handle_event s ev e =
     (if sleeping s then Inr (if is_wake e then s\<lparr>sleeping := False\<rparr> else s)
      else case and_then (click_phase s ev e) (\<lambda>s. power_phase s e) of
             Inl err \<Rightarrow> Inl err
           | Inr (Return s1) \<Rightarrow> Inr s1
           | Inr (Continue s1) \<Rightarrow>
               (case forward_focused s1 e (mouse ev) (rev (windows s1)) of
                  Inl err \<Rightarrow> Inl err
                | Inr s2 \<Rightarrow> Inr (global_keys s2 ev e)))"

subsection \<open>Drawing: the attributes it creates\<close>

text \<open>
  \<^verbatim>\<open>Desktop.draw\<close> changes the state only by what the drawing functions store for the
  next hit test: the title buttons of each drawn window, the start button and the
  taskbar buttons, the position of the menu with its items and power button while the
  menu is open, and the rectangle of the power dialog while it is open.  Nothing is
  stored while sleeping.
\<close>

fun task_button_list :: "int \<Rightarrow> int \<Rightarrow> nat list \<Rightarrow> (rect \<times> nat) list" where
  "task_button_list x y [] = []"
| "task_button_list x y (win # rest) =
     (Rect x y 160 (TASKBAR_H - 8), win) # task_button_list (x + 160 + 6) y rest"

definition draw_taskbar :: "state \<Rightarrow> state" where
  "draw_taskbar s =
     (let h = snd (screen s);
          sb = Rect 8 (h - TASKBAR_H + 6) 120 (TASKBAR_H - 12)
      in s\<lparr>start_btn := Some sb,
           task_buttons := Some (task_button_list (right sb + 8) (h - TASKBAR_H + 6) (windows s))\<rparr>)"

fun menu_item_list :: "int \<Rightarrow> int \<Rightarrow> int \<Rightarrow> string list \<Rightarrow> (rect \<times> string) list" where
  "menu_item_list x y w [] = []"
| "menu_item_list x y w (nm # rest) = (Rect x y w 36, nm) # menu_item_list x (y + 44) w rest"

definition draw_start_menu :: "state \<Rightarrow> state" where
  "draw_start_menu s =
     (if \<not> start_open s then s
      else (let h = snd (screen s);
                mr = (menu_rect s)\<lparr>rx := 10, ry := h - TASKBAR_H - 6 - rh (menu_rect s)\<rparr>
            in s\<lparr>menu_rect := mr,
                 menu_items := Some (menu_item_list (rx mr + 12) (ry mr + 58) (rw mr - 24)
                                       (map fst APP_MAP)),
                 power_btn := Some (Rect (rx mr + 12) (bottom mr - 64) (rw mr - 24) 44)\<rparr>))"

definition draw_power_dialog :: "state \<Rightarrow> state" where
  "draw_power_dialog s =
     (if \<not> power_open s then s
      else s\<lparr>power_rect := Some (Rect (W div 2 - 420 div 2) (H div 2 - 180 div 2) 420 180)\<rparr>)"

definition draw :: "state \<Rightarrow> state" where
  "draw s =
     (if sleeping s then s
      else draw_power_dialog (draw_start_menu (draw_taskbar
             (fold (\<lambda>r s. upd_win r window_draw s) (windows s) s))))"

subsection \<open>The main loop\<close>

text \<open>
  The last loop of the body of \<^verbatim>\<open>for ev in pygame.event.get()\<close>: every window of the
  z-order handles the event, in list order.
\<close>

fun forward_all :: "state \<Rightarrow> event \<Rightarrow> nat list \<Rightarrow> error + state" where
  "forward_all s e [] = Inr s"
| "forward_all s e (r # rs) =
     (case window_handle_event (screen s) (heap s r) e of
        Inl err \<Rightarrow> Inl err
      | Inr (_, w') \<Rightarrow> forward_all (s\<lparr>heap := (heap s)(r := w')\<rparr>) e rs)"

text \<open>The icon code of the main loop: a release ends every icon drag, a motion moves the dragged icons.\<close>

definition icon_release :: "icon \<Rightarrow> icon" where
  "icon_release ico = ico\<lparr>ico_dragging := False\<rparr>"

definition icon_motion :: "point \<Rightarrow> icon \<Rightarrow> icon" where
  "icon_motion pos ico =
     (if ico_dragging ico then
        (let d = (case off ico of None \<Rightarrow> (0, 0) | Some p \<Rightarrow> p)
         in ico\<lparr>ico_rect := (ico_rect ico)\<lparr>rx := fst pos - fst d, ry := snd pos - snd d\<rparr>\<rparr>)
      else ico)"

definition main_icons :: "state \<Rightarrow> event \<Rightarrow> state" where
  "main_icons s e =
     (case e of
        MOUSEBUTTONUP b pos \<Rightarrow> (if b = 1 then s\<lparr>icons := map icon_release (icons s)\<rparr> else s)
      | MOUSEMOTION pos \<Rightarrow> s\<lparr>icons := map (icon_motion pos) (icons s)\<rparr>
      | _ \<Rightarrow> s)"

text \<open>One iteration of \<^verbatim>\<open>for ev in pygame.event.get()\<close>.\<close>

definition process_event :: "state \<Rightarrow> env \<Rightarrow> event \<Rightarrow> error + state" where
  "process_event s ev e =
     (case (case e of
              QUIT \<Rightarrow> Inr (s\<lparr>running := False\<rparr>)
            | VIDEORESIZE w h \<Rightarrow> Inr (s\<lparr>screen := (w, h)\<rparr>)
            | _ \<Rightarrow> (case desktop_handle_event s ev e of
                      Inl err \<Rightarrow> Inl err
                    | Inr s1 \<Rightarrow> Inr (main_icons s1 e))) of
        Inl err \<Rightarrow> Inl err
      | Inr s2 \<Rightarrow> forward_all s2 e (windows s2))"

text \<open>One pass of the main loop: the events of the queue in order, then the drawing.\<close>

fun process_events :: "state \<Rightarrow> (env \<times> event) list \<Rightarrow> error + state" where
  "process_events s [] = Inr s"
| "process_events s ((ev, e) # rest) =
     (case process_event s ev e of Inl err \<Rightarrow> Inl err | Inr s1 \<Rightarrow> process_events s1 rest)"

definition tick :: "state \<Rightarrow> (env \<times> event) list \<Rightarrow> error + state" where
  "tick s evs = (case process_events s evs of Inl err \<Rightarrow> Inl err | Inr s1 \<Rightarrow> Inr (draw s1))"

subsection \<open>The initial desktop\<close>

text \<open>
  \<^verbatim>\<open>Desktop.__init__\<close> on the fresh module state: the nine icons in a grid of two
  columns, no window, everything closed, then the welcome Notes window.  No window
  object exists yet, so every address of the heap holds a placeholder that is never read.
\<close>

definition icon_names :: "string list" where
  "icon_names = [''Notes'', ''Sketch'', ''Settings'', ''Calculator'', ''Snake'', ''TicTacToe'',
                 ''Finder'', ''XL DRIFT'', ''ChatApp'']"

fun icon_grid :: "nat \<Rightarrow> string list \<Rightarrow> icon list" where
  "icon_grid i [] = []"
| "icon_grid i (nm # rest) =
     \<lparr>ico_name = nm,
      ico_rect = Rect (24 + (int i mod 2) * (ICON_SIZE + 24)) (24 + (int i div 2) * (ICON_SIZE + 24))
                      ICON_SIZE ICON_SIZE,
      last_click = None, ico_dragging = False, off = None\<rparr> # icon_grid (Suc i) rest"

definition no_window :: window where
  "no_window = new_window (new_app []) [] (Rect 0 0 0 0) 0"

definition fresh_state :: state where
  "fresh_state =
     \<lparr>icons = icon_grid 0 icon_names, windows = [], start_open = False,
      menu_rect = Rect 8 (H - 340 - TASKBAR_H) 260 340,
      power_open = False, sleeping = False,
      start_btn = None, task_buttons = None, menu_items = None, power_btn = None,
      power_rect = None, drag_icon = None,
      heap = (\<lambda>_. no_window), seq = 0, screen = (W, H), running = True\<rparr>"

definition Desktop_init :: "error + state" where
  "Desktop_init =
     (case spawn_window fresh_state ''Notes'' (540, 420) of
        Inl err \<Rightarrow> Inl err | Inr (s, _) \<Rightarrow> Inr s)"

section \<open>Call sequences and concrete desktops\<close>

text \<open>The state \<^verbatim>\<open>Desktop()\<close> produces on the fresh module state, written out.\<close>

definition init_state :: state where
  "init_state =
     fresh_state\<lparr>heap := (heap fresh_state)
                   (0 := new_window (new_app ''Notes'') ''Notes'' (Rect 180 120 540 420) 0),
                 seq := 1, windows := [0]\<rparr>"

text \<open>
  Sequences of calls of \<^verbatim>\<open>focus\<close>, \<^verbatim>\<open>spawn_window\<close> and \<^verbatim>\<open>close\<close> on the desktop.
  Beside the state, a trace records what the calls mean for the user of the desktop: the
  set of windows that are open (returned by a \<^verbatim>\<open>spawn_window\<close> and not yet passed to
  \<^verbatim>\<open>close\<close>) and the windows that were focused, in order (a spawned window is focused
  by \<^verbatim>\<open>spawn_window\<close> itself).  A call that raises (\<^verbatim>\<open>spawn_window\<close> on an unknown
  name, \<^verbatim>\<open>focus\<close> on a window that is not in a non-empty z-order) raises before it
  changes anything, so the sequence goes on from the same state and trace.
\<close>

datatype op = Focus nat | Spawn string point | Close nat

record trace =
  opened :: "nat set"
  focused :: "nat list"

fun step :: "state \<times> trace \<Rightarrow> op \<Rightarrow> state \<times> trace" where
  "step (s, t) (Spawn nm sz) =
     (case spawn_window s nm sz of
        Inl err \<Rightarrow> (s, t)
      | Inr (s', r) \<Rightarrow> (s', t\<lparr>opened := insert r (opened t), focused := focused t @ [r]\<rparr>))"
| "step (s, t) (Focus r) =
     (case focus s r of
        Inl err \<Rightarrow> (s, t)
      | Inr s' \<Rightarrow> (s', t\<lparr>focused := focused t @ [r]\<rparr>))"
| "step (s, t) (Close r) = (close s r, t\<lparr>opened := opened t - {r}\<rparr>)"

text \<open>The run of a sequence from the initial desktop, whose welcome window is open and focused.\<close>

definition run :: "op list \<Rightarrow> state \<times> trace" where
  "run ops = foldl step (init_state, \<lparr>opened = {0}, focused = [0]\<rparr>) ops"

text \<open>
  The windows of \<open>A\<close> in the order in which they were last focused, according to the list
  \<open>fl\<close> of focused windows (\<open>remdups\<close> keeps the last occurrence of each element).
\<close>

definition mru :: "nat set \<Rightarrow> nat list \<Rightarrow> nat list" where
  "mru A fl = remdups (filter (\<lambda>r. r \<in> A) fl)"

text \<open>
  The invariant of the z-order: no window twice, exactly the open windows, only
  references that have been handed out, and in the order of their last focus.
\<close>

definition zinv :: "state \<times> trace \<Rightarrow> bool" where
  "zinv st \<longleftrightarrow>
     distinct (windows (fst st)) \<and> set (windows (fst st)) = opened (snd st) \<and>
     (\<forall>r \<in> set (windows (fst st)). r < seq (fst st)) \<and>
     windows (fst st) = mru (opened (snd st)) (focused (snd st))"

definition demo_ops :: "op list" where
  "demo_ops = [Spawn ''Sketch'' (520, 360), Spawn ''Nope'' (1, 1), Focus 0, Focus 7, Close 0,
               Spawn ''Snake'' (520, 360), Focus 1]"

text \<open>
  A Notes window as \<^verbatim>\<open>spawn_window\<close> makes it, in the middle of both a drag and a
  resize; and one that has been dragged to the right edge of the screen (the drag lets
  \<open>x\<close> reach \<open>sw - 60\<close>) and whose resize grip is held.
\<close>

definition notes_window :: window where
  "notes_window = new_window (new_app ''Notes'') ''Notes'' (Rect 180 120 540 420) 0"

definition grabbed_window :: window where
  "grabbed_window = notes_window\<lparr>dragging := True, drag_offset := (20, 10), resizing := True\<rparr>"

definition edge_window :: window where
  "edge_window = notes_window\<lparr>wrect := Rect 1200 100 540 420, resizing := True\<rparr>"

text \<open>The Notes window after it has been drawn once, and an environment with the pointer at a given place.\<close>

definition drawn_window :: window where
  "drawn_window = window_draw notes_window"

definition pointer :: "point \<Rightarrow> env" where
  "pointer p = \<lparr>mouse = p, now = 0, alt_held = False\<rparr>"

text \<open>
  Several passes of the main loop in a row, each with the events its queue holds: the
  events are processed, then the desktop is drawn.
\<close>

fun play :: "state \<Rightarrow> (env \<times> event) list list \<Rightarrow> error + state" where
  "play s [] = Inr s"
| "play s (evs # rest) = (case tick s evs of Inl err \<Rightarrow> Inl err | Inr s1 \<Rightarrow> play s1 rest)"


text \<open>
  \<open>reordered s s1\<close>: the state \<open>s1\<close> is \<open>s\<close> except for the order of the z-order list
  and the start-menu flag.
\<close>

definition reordered :: "state \<Rightarrow> state \<Rightarrow> bool" where
  "reordered s s1 \<longleftrightarrow>
     s1 = s\<lparr>windows := windows s1, start_open := start_open s1\<rparr> \<and>
     set (windows s1) = set (windows s)"

text \<open>An environment with the clock at \<open>t\<close> seconds and the pointer at \<open>p\<close>.\<close>

definition at_time :: "real \<Rightarrow> point \<Rightarrow> env" where
  "at_time t p = \<lparr>mouse = p, now = t, alt_held = False\<rparr>"



definition sleep_with_icon_held :: "(env \<times> event) list list" where
  "sleep_with_icon_held =
     [[], [(at_time 100 (50, 700), MOUSEBUTTONDOWN 1 (50, 700))],
          [(at_time 101 (100, 646), MOUSEBUTTONDOWN 1 (100, 646))],
          [(at_time 102 (30, 30), MOUSEBUTTONDOWN 1 (30, 30))],
          [(at_time 103 (700, 350), MOUSEBUTTONDOWN 1 (700, 350))]]"

definition icon_under_shutdown :: "(env \<times> event) list list" where
  "icon_under_shutdown =
     [[], [(at_time 100 (30, 30), MOUSEBUTTONDOWN 1 (30, 30))],
          [(at_time 101 (466, 346), MOUSEMOTION (466, 346))],
          [(at_time 102 (466, 346), MOUSEBUTTONUP 1 (466, 346))],
          [(at_time 103 (50, 700), MOUSEBUTTONDOWN 1 (50, 700))],
          [(at_time 104 (100, 646), MOUSEBUTTONDOWN 1 (100, 646))]]"

text \<open>
  The z-order holds no window twice and only references that have been handed out.
  \<open>flow_state\<close> is the state an event handler has reached, however it ended.
\<close>

definition wfz :: "state \<Rightarrow> bool" where
  "wfz s \<longleftrightarrow> distinct (windows s) \<and> (\<forall>r \<in> set (windows s). r < seq s)"


section \<open>Properties\<close>

lemmas geometry_defs = Rect_def right_def bottom_def collidepoint_def titlebar_rect_def
  content_rect_def grip_rect_def

lemmas desktop_defs = process_event_def desktop_handle_event_def click_phase_def and_then_def
  returning_def continuing_def click_start_def click_menu_def click_icons_def click_taskbar_def
  power_phase_def power_cmd_def power_labels_def power_action_rect_def minimize_all_def
  global_keys_def main_icons_def is_wake_def upd_win_def toggle_maximize_def focus_def close_def
  spawn_window_def hit_title_buttons_def window_handle_event_def forward_to_app_def
  app_handle_event_def motion_drag_def motion_resize_def mutate_rect_def
  icon_release_def icon_motion_def

lemmas draw_defs = draw_def draw_taskbar_def draw_start_menu_def draw_power_dialog_def
  window_draw_def APP_MAP_def

lemmas init_defs = init_state_def fresh_state_def icon_names_def new_window_def new_app_def
  notes_window_def pointer_def

lemma Desktop_init_eq: "Desktop_init = Inr init_state"
  by (simp add: Desktop_init_def init_state_def spawn_window_def fresh_state_def APP_MAP_def
        focus_def Let_def new_app_def)

subsection \<open>The z-order under focus, spawn and close\<close>

lemma remdups_snoc: "remdups (xs @ [x]) = removeAll x (remdups xs) @ [x]"
  by (induction xs) auto

lemma remdups_removeAll: "remdups (removeAll x xs) = removeAll x (remdups xs)"
  by (induction xs) auto

lemma filter_minus: "filter (\<lambda>r. r \<in> A \<and> r \<noteq> x) xs = removeAll x (filter (\<lambda>r. r \<in> A) xs)"
  by (induction xs) auto

lemma mru_close: "mru (A - {x}) fl = removeAll x (mru A fl)"
  by (simp add: mru_def filter_minus remdups_removeAll)

lemma mru_focus_in: "x \<in> A \<Longrightarrow> mru A (fl @ [x]) = removeAll x (mru A fl) @ [x]"
  by (simp add: mru_def remdups_snoc)

lemma mru_focus_out: "x \<notin> A \<Longrightarrow> mru A (fl @ [x]) = mru A fl"
  by (simp add: mru_def)

lemma mru_spawn: "x \<notin> A \<Longrightarrow> mru (insert x A) (fl @ [x]) = mru A fl @ [x]"
proof -
  assume a: "x \<notin> A"
  then have "insert x A - {x} = A" by auto
  with mru_close [of "insert x A" x fl] have "removeAll x (mru (insert x A) fl) = mru A fl"
    by simp
  with mru_focus_in [of x "insert x A" fl] show ?thesis by simp
qed

lemma removeAll_last: "distinct ws \<Longrightarrow> ws \<noteq> [] \<Longrightarrow> removeAll (last ws) ws @ [last ws] = ws"
proof (induction ws rule: rev_induct)
  case Nil then show ?case by simp
next
  case (snoc x xs) then show ?case by (simp add: removeAll_id)
qed

lemma last_remdups: "xs \<noteq> [] \<Longrightarrow> last (remdups xs) = last xs"
proof (induction xs rule: rev_induct)
  case Nil then show ?case by simp
next
  case (snoc x xs) then show ?case by (simp add: remdups_snoc)
qed

lemma zinvI:
  "distinct (windows s) \<Longrightarrow> set (windows s) = opened t \<Longrightarrow>
   (\<And>r. r \<in> set (windows s) \<Longrightarrow> r < seq s) \<Longrightarrow>
   windows s = mru (opened t) (focused t) \<Longrightarrow> zinv (s, t)"
  by (simp add: zinv_def)

lemma zinvD:
  assumes "zinv (s, t)"
  shows "distinct (windows s)" and "set (windows s) = opened t"
    and "r \<in> set (windows s) \<Longrightarrow> r < seq s"
    and "windows s = mru (opened t) (focused t)"
  using assms unfolding zinv_def fst_conv snd_conv by blast+

lemma zinv_init: "zinv (init_state, \<lparr>opened = {0}, focused = [0]\<rparr>)"
  by (simp add: zinv_def init_state_def mru_def)

lemma zinv_close: "zinv (s, t) \<Longrightarrow> zinv (step (s, t) (Close r))"
proof -
  assume z: "zinv (s, t)"
  note d = zinvD [OF z]
  show ?thesis
  proof (cases "r \<in> set (windows s)")
    case True
    have "zinv (s\<lparr>windows := remove1 r (windows s)\<rparr>, t\<lparr>opened := opened t - {r}\<rparr>)"
    proof (rule zinvI)
      show "distinct (windows (s\<lparr>windows := remove1 r (windows s)\<rparr>))" using d(1) by simp
      show "set (windows (s\<lparr>windows := remove1 r (windows s)\<rparr>)) = opened (t\<lparr>opened := opened t - {r}\<rparr>)"
        using d(1) d(2) by simp
      show "\<And>q. q \<in> set (windows (s\<lparr>windows := remove1 r (windows s)\<rparr>)) \<Longrightarrow>
              q < seq (s\<lparr>windows := remove1 r (windows s)\<rparr>)"
        using d(1) d(3) by simp
      have "remove1 r (windows s) = removeAll r (windows s)"
        using d(1) by (rule distinct_remove1_removeAll)
      also have "\<dots> = removeAll r (mru (opened t) (focused t))" using d(4) by simp
      also have "\<dots> = mru (opened t - {r}) (focused t)" by (simp add: mru_close)
      finally show "windows (s\<lparr>windows := remove1 r (windows s)\<rparr>) =
          mru (opened (t\<lparr>opened := opened t - {r}\<rparr>)) (focused (t\<lparr>opened := opened t - {r}\<rparr>))"
        by simp
    qed
    with True show ?thesis by (simp add: close_def)
  next
    case False
    then have "r \<notin> opened t" using d(2) by simp
    then have "opened t - {r} = opened t" by auto
    with False z show ?thesis by (simp add: close_def)
  qed
qed

lemma zinv_log:
  assumes z: "zinv (s, t)" and w: "windows s' = removeAll r (windows s) @ [r]"
    and q: "seq s' = seq s" and i: "r \<in> set (windows s)"
  shows "zinv (s', t\<lparr>focused := focused t @ [r]\<rparr>)"
proof (rule zinvI)
  note d = zinvD [OF z]
  show "distinct (windows s')" using w d(1) by (simp add: distinct_removeAll)
  show "set (windows s') = opened (t\<lparr>focused := focused t @ [r]\<rparr>)" using w d(2) i by auto
  show "\<And>x. x \<in> set (windows s') \<Longrightarrow> x < seq s'" using w q d(3) i by auto
  have "r \<in> opened t" using d(2) i by simp
  then have "mru (opened t) (focused t @ [r]) = removeAll r (mru (opened t) (focused t)) @ [r]"
    by (rule mru_focus_in)
  then show "windows s' = mru (opened (t\<lparr>focused := focused t @ [r]\<rparr>))
       (focused (t\<lparr>focused := focused t @ [r]\<rparr>))" using w d(4) by simp
qed

lemma zinv_focus: "zinv (s, t) \<Longrightarrow> zinv (step (s, t) (Focus r))"
proof -
  assume z: "zinv (s, t)"
  note d = zinvD [OF z]
  show ?thesis
  proof (cases "r \<in> set (windows s)")
    case False
    then have o: "r \<notin> opened t" using d(2) by simp
    have "zinv (s, t\<lparr>focused := focused t @ [r]\<rparr>)"
    proof (rule zinvI)
      show "distinct (windows s)" by (rule d(1))
      show "set (windows s) = opened (t\<lparr>focused := focused t @ [r]\<rparr>)" using d(2) by simp
      show "\<And>x. x \<in> set (windows s) \<Longrightarrow> x < seq s" by (rule d(3))
      show "windows s = mru (opened (t\<lparr>focused := focused t @ [r]\<rparr>))
              (focused (t\<lparr>focused := focused t @ [r]\<rparr>))"
        using d(4) mru_focus_out [OF o, of "focused t"] by simp
    qed
    with False z show ?thesis by (simp add: focus_def)
  next
    case True
    then have ne: "windows s \<noteq> []" by auto
    show ?thesis
    proof (cases "last (windows s) = r")
      case l: True
      from removeAll_last [OF d(1) ne] l have "windows s = removeAll r (windows s) @ [r]" by simp
      from zinv_log [OF z this refl True] l ne show ?thesis by (simp add: focus_def)
    next
      case False
      let ?s' = "s\<lparr>windows := remove1 r (windows s) @ [r]\<rparr>"
      have "windows ?s' = removeAll r (windows s) @ [r]"
        using d(1) by (simp add: distinct_remove1_removeAll)
      from zinv_log [OF z this _ True] have "zinv (?s', t\<lparr>focused := focused t @ [r]\<rparr>)" by simp
      with False True ne show ?thesis by (simp add: focus_def)
    qed
  qed
qed

lemma spawn_window_result:
  "spawn_window s nm sz = Inr (s', r) \<Longrightarrow>
     r = seq s \<and> windows s' = windows s @ [seq s] \<and> seq s' = Suc (seq s)"
  by (auto simp: spawn_window_def Let_def focus_def split: option.splits)

lemma zinv_spawn: "zinv (s, t) \<Longrightarrow> zinv (step (s, t) (Spawn nm sz))"
proof (cases "spawn_window s nm sz")
  case (Inl e)
  assume "zinv (s, t)" with Inl show ?thesis by simp
next
  case (Inr p)
  assume z: "zinv (s, t)"
  note d = zinvD [OF z]
  obtain s' r where p: "p = (s', r)" by (cases p)
  from spawn_window_result Inr p have r: "r = seq s" and w: "windows s' = windows s @ [seq s]"
    and q: "seq s' = Suc (seq s)" by blast+
  have fresh: "seq s \<notin> opened t" using d(2) d(3) [of "seq s"] by auto
  have "zinv (s', t\<lparr>opened := insert (seq s) (opened t), focused := focused t @ [seq s]\<rparr>)"
  proof (rule zinvI)
    show "distinct (windows s')" using w d(1) d(2) fresh by simp
    show "set (windows s') =
       opened (t\<lparr>opened := insert (seq s) (opened t), focused := focused t @ [seq s]\<rparr>)"
      using w d(2) by simp
    show "\<And>x. x \<in> set (windows s') \<Longrightarrow> x < seq s'" using w q d(3) by (auto simp: less_Suc_eq)
    show "windows s' =
       mru (opened (t\<lparr>opened := insert (seq s) (opened t), focused := focused t @ [seq s]\<rparr>))
           (focused (t\<lparr>opened := insert (seq s) (opened t), focused := focused t @ [seq s]\<rparr>))"
      using w d(4) mru_spawn [OF fresh, of "focused t"] by simp
  qed
  with Inr p r show ?thesis by simp
qed

lemma zinv_step: "zinv st \<Longrightarrow> zinv (step st x)"
proof (cases st)
  case (Pair s t)
  assume "zinv st"
  with Pair show ?thesis
    by (cases x) (simp_all only: zinv_focus zinv_spawn zinv_close)
qed

lemma zinv_foldl: "zinv st \<Longrightarrow> zinv (foldl step st ops)"
  by (induction ops arbitrary: st) (simp_all add: zinv_step)

lemma zinv_run: "zinv (run ops)"
  unfolding run_def by (rule zinv_foldl [OF zinv_init])

lemma demo_run_windows: "windows (fst (run demo_ops)) = [2, 1]"
  by (simp add: run_def demo_ops_def init_state_def fresh_state_def spawn_window_def
        focus_def close_def APP_MAP_def Let_def)

lemma demo_run_trace:
  "opened (snd (run demo_ops)) = {1, 2} \<and> focused (snd (run demo_ops)) = [0, 1, 0, 2, 1]"
  by (simp add: run_def demo_ops_def init_state_def fresh_state_def spawn_window_def
        focus_def close_def APP_MAP_def Let_def insert_commute numeral_2_eq_2)

text \<open>
  C1.  After every sequence of \<^verbatim>\<open>focus\<close>, \<^verbatim>\<open>spawn_window\<close> and \<^verbatim>\<open>close\<close> calls from
  the initial desktop, the z-order list has no window twice, holds exactly the windows
  that are open, and, when it is not empty, its last element is the open window that was
  focused most recently.
\<close>

theorem zorder_invariant:
  "distinct (windows (fst (run ops))) \<and>
   set (windows (fst (run ops))) = opened (snd (run ops)) \<and>
   (windows (fst (run ops)) \<noteq> [] \<longrightarrow>
      last (windows (fst (run ops))) =
        last (filter (\<lambda>r. r \<in> opened (snd (run ops))) (focused (snd (run ops)))))"
proof -
  obtain s t where st: "run ops = (s, t)" by (cases "run ops")
  have z: "zinv (s, t)" using zinv_run [of ops] st by simp
  note d = zinvD [OF z]
  have "windows s \<noteq> [] \<longrightarrow> last (windows s) = last (filter (\<lambda>r. r \<in> opened t) (focused t))"
  proof
    assume ne: "windows s \<noteq> []"
    with d(4) have "filter (\<lambda>r. r \<in> opened t) (focused t) \<noteq> []"
      by (auto simp: mru_def)
    from last_remdups [OF this] d(4) show "last (windows s) = last (filter (\<lambda>r. r \<in> opened t) (focused t))"
      by (simp add: mru_def)
  qed
  with d(1) d(2) st show ?thesis by simp
qed

theorem zorder_invariant_witness:
  "windows (fst (run demo_ops)) = [2, 1] \<and> windows (fst (run demo_ops)) \<noteq> [] \<and>
   last (windows (fst (run demo_ops))) =
     last (filter (\<lambda>r. r \<in> opened (snd (run demo_ops))) (focused (snd (run demo_ops)))) \<and>
   last (filter (\<lambda>r. r \<in> opened (snd (run demo_ops))) (focused (snd (run demo_ops)))) = 1"
proof -
  have w: "windows (fst (run demo_ops)) = [2, 1]" by (rule demo_run_windows)
  then have ne: "windows (fst (run demo_ops)) \<noteq> []" by simp
  with zorder_invariant [of demo_ops]
  have l: "last (windows (fst (run demo_ops))) =
     last (filter (\<lambda>r. r \<in> opened (snd (run demo_ops))) (focused (snd (run demo_ops))))"
    by blast
  with w have "last (filter (\<lambda>r. r \<in> opened (snd (run demo_ops))) (focused (snd (run demo_ops)))) = 1"
    by simp
  with w ne l show ?thesis by blast
qed

subsection \<open>Frames under pointer motion\<close>

lemma forward_wrect [simp]: "wrect (forward_to_app win e) = wrect win"
  by (simp add: forward_to_app_def)

lemma motion_drag_frame:
  "dragging win \<Longrightarrow>
     rw (wrect (motion_drag (sw, sh) pos win)) = rw (wrect win) \<and>
     rh (wrect (motion_drag (sw, sh) pos win)) = rh (wrect win) \<and>
     rx (wrect (motion_drag (sw, sh) pos win)) =
       max (- rw (wrect win) + 60) (min (fst pos - fst (drag_offset win)) (sw - 60)) \<and>
     ry (wrect (motion_drag (sw, sh) pos win)) =
       max 0 (min (snd pos - snd (drag_offset win)) (sh - TASKBAR_H - TITLEBAR_H))"
  by (simp add: motion_drag_def mutate_rect_def Let_def)

lemma motion_drag_idle: "\<not> dragging win \<Longrightarrow> motion_drag scr pos win = win"
  by (simp add: motion_drag_def)

lemma motion_drag_resizing [simp]: "resizing (motion_drag scr pos win) = resizing win"
  by (simp add: motion_drag_def mutate_rect_def Let_def)

lemma motion_resize_frame:
  "resizing win \<Longrightarrow>
     rx (wrect (motion_resize (sw, sh) pos win)) = rx (wrect win) \<and>
     ry (wrect (motion_resize (sw, sh) pos win)) = ry (wrect win) \<and>
     rw (wrect (motion_resize (sw, sh) pos win)) =
       min (max MIN_W (fst pos - rx (wrect win))) (sw - rx (wrect win) - 10) \<and>
     rh (wrect (motion_resize (sw, sh) pos win)) =
       min (max MIN_H (snd pos - ry (wrect win))) (sh - TASKBAR_H - ry (wrect win) - 10)"
  by (simp add: motion_resize_def mutate_rect_def Let_def)

lemma motion_resize_idle: "\<not> resizing win \<Longrightarrow> motion_resize scr pos win = win"
  by (simp add: motion_resize_def)

lemma window_motion:
  "\<not> minimized win \<Longrightarrow>
   window_handle_event scr win (MOUSEMOTION pos) =
     Inr (None, forward_to_app (motion_resize scr pos (motion_drag scr pos win)) (MOUSEMOTION pos))"
  by (simp add: window_handle_event_def)


lemma motion_resize_pos [simp]:
  "rx (wrect (motion_resize scr pos win)) = rx (wrect win)"
  "ry (wrect (motion_resize scr pos win)) = ry (wrect win)"
  by (simp_all add: motion_resize_def mutate_rect_def Let_def)

lemma motion_drag_size [simp]:
  "rw (wrect (motion_drag scr pos win)) = rw (wrect win)"
  "rh (wrect (motion_drag scr pos win)) = rh (wrect win)"
  by (simp_all add: motion_drag_def mutate_rect_def Let_def)

text \<open>
  C2.  The claim is that after every drag or resize pointer motion the frame is at least
  \<open>MIN_W\<close> wide and \<open>MIN_H\<close> high and stays within the permitted bounds.  The resize
  branch of \<^verbatim>\<open>Window.handle_event\<close> does take \<open>max(MIN_W, ...)\<close>, but the \<open>min\<close> with
  \<open>sw - x - 10\<close> that follows undoes it: a window at the right edge of the screen, resized
  with the pointer far beyond the screen, ends 70 wide, less than \<open>MIN_W = 220\<close>.  The
  code breaks the claim here.
\<close>

theorem resize_below_min_width:
  "map_sum id (\<lambda>p. wrect (snd p))
     (window_handle_event (1280, 720) edge_window (MOUSEMOTION (5000, 5000))) =
   Inr (Rect 1200 100 70 566)"
  by (simp add: window_handle_event_def forward_to_app_def motion_resize_def motion_drag_def
        mutate_rect_def edge_window_def notes_window_def new_window_def Rect_def Let_def)

text \<open>
  The same from the initial desktop, with every pointer position on the screen: the
  window is narrowed to \<open>MIN_W\<close> at its grip, dragged by its title bar until its right
  edge is at the right edge of the screen, and resized at its grip again; it ends 210
  wide.
\<close>

lemma resize_below_min_reachable:
  "map_sum id (\<lambda>s. wrect (heap s 0))
     (play init_state
        [[], [(pointer (714, 534), MOUSEBUTTONDOWN 1 (714, 534))],
             [(pointer (300, 534), MOUSEMOTION (300, 534))],
             [(pointer (300, 534), MOUSEBUTTONUP 1 (300, 534))],
             [(pointer (200, 130), MOUSEBUTTONDOWN 1 (200, 130))],
             [(pointer (1080, 130), MOUSEMOTION (1080, 130))],
             [(pointer (1080, 130), MOUSEBUTTONUP 1 (1080, 130))],
             [(pointer (1270, 525), MOUSEBUTTONDOWN 1 (1270, 525))],
             [(pointer (1275, 530), MOUSEMOTION (1275, 530))]]) =
   Inr (Rect 1060 120 210 410)"
  by (simp add: tick_def desktop_defs draw_defs init_defs geometry_defs Let_def)

subsection \<open>What a window hands to its application\<close>

lemma forward_content [simp]: "content_rect (forward_to_app win e) = content_rect win"
  by (simp add: forward_to_app_def content_rect_def)

lemma forward_received:
  "\<not> minimized win \<Longrightarrow>
     received (app (forward_to_app win e)) = received (app win) @ [(e, content_rect win)]"
  by (simp add: forward_to_app_def app_handle_event_def)

lemma motion_minimized [simp]:
  "minimized (motion_drag scr pos win) = minimized win"
  "minimized (motion_resize scr pos win) = minimized win"
  by (simp_all add: motion_drag_def motion_resize_def mutate_rect_def Let_def)

lemma motion_app [simp]:
  "app (motion_drag scr pos win) = app win"
  "app (motion_resize scr pos win) = app win"
  by (simp_all add: motion_drag_def motion_resize_def mutate_rect_def Let_def)

lemma forwarded:
  "\<not> minimized win \<Longrightarrow> minimized x = minimized win \<Longrightarrow> app x = app win \<Longrightarrow>
   \<exists>win'. Inr (None, forward_to_app x e) = Inr (None :: label option, win') \<and>
     received (app win') = received (app win) @ [(e, content_rect win')]"
  by (simp add: forward_received)

text \<open>
  C4, as the code has it.  \<^verbatim>\<open>Window.handle_event\<close> on a window that is not minimised
  hands the event to the application, once and with the content rectangle of the frame
  as the event left it: every event that is not a press of the left button in the title
  bar, and every such press for which \<^verbatim>\<open>_hit_title_buttons\<close> returns \<^verbatim>\<open>None\<close> (the
  press starts a drag).  A press of the left button in the title bar for which
  \<^verbatim>\<open>_hit_title_buttons\<close> returns a label is not handed on: \<^verbatim>\<open>Window.handle_event\<close>
  returns the label, leaves the window as it is, and the application receives nothing.
\<close>

theorem window_forwards_unless_title_button:
  assumes nm: "\<not> minimized win"
  shows
  "((\<forall>pos. e = MOUSEBUTTONDOWN 1 pos \<longrightarrow> collidepoint (titlebar_rect win) pos \<longrightarrow>
        hit_title_buttons win pos = Inr None) \<longrightarrow>
    (\<exists>win'. window_handle_event scr win e = Inr (None, win') \<and>
        received (app win') = received (app win) @ [(e, content_rect win')])) \<and>
   (\<forall>pos l. e = MOUSEBUTTONDOWN 1 pos \<longrightarrow> collidepoint (titlebar_rect win) pos \<longrightarrow>
        hit_title_buttons win pos = Inr (Some l) \<longrightarrow>
        window_handle_event scr win e = Inr (Some l, win))"
proof (intro conjI impI allI)
  assume h: "\<forall>pos. e = MOUSEBUTTONDOWN 1 pos \<longrightarrow> collidepoint (titlebar_rect win) pos \<longrightarrow>
        hit_title_buttons win pos = Inr None"
  show "\<exists>win'. window_handle_event scr win e = Inr (None, win') \<and>
        received (app win') = received (app win) @ [(e, content_rect win')]"
  proof (cases e)
    case (MOUSEBUTTONDOWN b pos)
    show ?thesis
    proof (cases "b = 1 \<and> collidepoint (titlebar_rect win) pos")
      case True
      with h MOUSEBUTTONDOWN have "hit_title_buttons win pos = Inr None" by simp
      with True nm MOUSEBUTTONDOWN show ?thesis
        by (simp add: window_handle_event_def forward_received)
    next
      case False
      with nm MOUSEBUTTONDOWN show ?thesis
        by (auto simp: window_handle_event_def forward_received)
    qed
  next
    case (MOUSEBUTTONUP b pos)
    with nm show ?thesis by (auto simp: window_handle_event_def forward_received)
  next
    case (MOUSEMOTION pos)
    with nm show ?thesis by (simp add: window_handle_event_def forward_received)
  qed (use nm in \<open>simp_all add: window_handle_event_def forward_received\<close>)
next
  fix pos l
  assume "e = MOUSEBUTTONDOWN 1 pos" "collidepoint (titlebar_rect win) pos"
    "hit_title_buttons win pos = Inr (Some l)"
  with nm show "window_handle_event scr win e = Inr (Some l, win)"
    by (simp add: window_handle_event_def)
qed

theorem window_forwards_unless_title_button_witness:
  "\<not> minimized drawn_window \<and>
   hit_title_buttons drawn_window (200, 130) = Inr None \<and>
   (\<exists>win'. window_handle_event (1280, 720) drawn_window (MOUSEBUTTONDOWN 1 (200, 130)) =
       Inr (None, win') \<and>
     received (app win') =
       received (app drawn_window) @ [(MOUSEBUTTONDOWN 1 (200, 130), content_rect win')]) \<and>
   (\<exists>win'. window_handle_event (1280, 720) drawn_window (MOUSEMOTION (9000, - 9000)) =
       Inr (None, win') \<and>
     received (app win') =
       received (app drawn_window) @ [(MOUSEMOTION (9000, - 9000), content_rect win')]) \<and>
   collidepoint (titlebar_rect drawn_window) (670, 130) \<and>
   hit_title_buttons drawn_window (670, 130) = Inr (Some BtnMax) \<and>
   window_handle_event (1280, 720) drawn_window (MOUSEBUTTONDOWN 1 (670, 130)) =
     Inr (Some BtnMax, drawn_window)"
proof -
  have nm: "\<not> minimized drawn_window"
    by (simp add: drawn_window_def window_draw_def notes_window_def new_window_def Let_def)
  have t2: "collidepoint (titlebar_rect drawn_window) (670, 130)"
    by (simp add: drawn_window_def window_draw_def notes_window_def new_window_def
          geometry_defs Let_def)
  have h1: "hit_title_buttons drawn_window (200, 130) = Inr None"
    and h2: "hit_title_buttons drawn_window (670, 130) = Inr (Some BtnMax)"
    by (simp_all add: hit_title_buttons_def drawn_window_def window_draw_def notes_window_def
          new_window_def geometry_defs Let_def)
  note w1 = window_forwards_unless_title_button [OF nm, of "MOUSEBUTTONDOWN 1 (200, 130)" "(1280, 720)"]
  note w2 = window_forwards_unless_title_button [OF nm, of "MOUSEBUTTONDOWN 1 (670, 130)" "(1280, 720)"]
  note w3 = window_forwards_unless_title_button [OF nm, of "MOUSEMOTION (9000, - 9000)" "(1280, 720)"]
  from w1 h1 have a: "\<exists>win'. window_handle_event (1280, 720) drawn_window (MOUSEBUTTONDOWN 1 (200, 130)) =
       Inr (None, win') \<and>
     received (app win') =
       received (app drawn_window) @ [(MOUSEBUTTONDOWN 1 (200, 130), content_rect win')]"
    by simp
  from w3 have c: "\<exists>win'. window_handle_event (1280, 720) drawn_window (MOUSEMOTION (9000, - 9000)) =
       Inr (None, win') \<and>
     received (app win') =
       received (app drawn_window) @ [(MOUSEMOTION (9000, - 9000), content_rect win')]"
    by simp
  from w2 t2 h2 have b: "window_handle_event (1280, 720) drawn_window (MOUSEBUTTONDOWN 1 (670, 130)) =
     Inr (Some BtnMax, drawn_window)" by blast
  from nm h1 a c t2 h2 b show ?thesis by blast
qed

text \<open>
  The claim as stated fails: a press on the close button of a drawn, not minimised window
  returns the label and leaves the application without any received event.
\<close>

theorem close_button_not_forwarded:
  "window_handle_event (1280, 720) drawn_window (MOUSEBUTTONDOWN 1 (700, 130)) =
     Inr (Some BtnClose, drawn_window) \<and>
   \<not> minimized drawn_window \<and> received (app drawn_window) = []"
  by (simp add: window_handle_event_def drawn_window_def window_draw_def notes_window_def
        new_window_def new_app_def hit_title_buttons_def geometry_defs Let_def)

subsection \<open>Maximise toggle, registry and close\<close>

text \<open>
  C5.  For a window that is not maximised, the maximise toggle performed twice gives back
  exactly the frame the window had before the first toggle (whatever the screen size at
  either toggle); in between the window is maximised, with the frame of the usable
  desktop area.
\<close>

theorem maximize_round_trip:
  "\<not> maximized win \<Longrightarrow>
     wrect (toggle_maximize scr2 (toggle_maximize scr1 win)) = wrect win \<and>
     \<not> maximized (toggle_maximize scr2 (toggle_maximize scr1 win)) \<and>
     maximized (toggle_maximize scr1 win) \<and>
     wrect (toggle_maximize scr1 win) = Rect 8 8 (fst scr1 - 16) (snd scr1 - TASKBAR_H - 16)"
  by (simp add: toggle_maximize_def)

theorem maximize_round_trip_witness:
  "\<not> maximized notes_window \<and>
   wrect (toggle_maximize (1280, 720) (toggle_maximize (1280, 720) notes_window)) =
     Rect 180 120 540 420 \<and>
   wrect (toggle_maximize (1280, 720) notes_window) = Rect 8 8 1264 660"
proof -
  have m: "\<not> maximized notes_window" by (simp add: notes_window_def new_window_def)
  have "wrect notes_window = Rect 180 120 540 420" by (simp add: notes_window_def new_window_def)
  with maximize_round_trip [OF m, of "(1280, 720)" "(1280, 720)"] m show ?thesis by simp
qed

text \<open>
  The same through the event handlers: on the drawn initial desktop, a press on the
  maximise button maximises the Notes window; after the next drawing, a press on the
  maximise button at its new place restores the frame.
\<close>

lemma maximize_by_click:
  "map_sum id (\<lambda>s. (wrect (heap s 0), maximized (heap s 0)))
     (play init_state [[], [(pointer (670, 130), MOUSEBUTTONDOWN 1 (670, 130))]]) =
   Inr (Rect 8 8 1264 660, True)"
  by (simp add: tick_def desktop_defs draw_defs init_defs geometry_defs Let_def)

lemma restore_by_click:
  "map_sum id (\<lambda>s. (wrect (heap s 0), maximized (heap s 0)))
     (play init_state [[], [(pointer (670, 130), MOUSEBUTTONDOWN 1 (670, 130))],
                       [(pointer (1220, 20), MOUSEBUTTONDOWN 1 (1220, 20))]]) =
   Inr (Rect 180 120 540 420, False)"
  by (simp add: tick_def desktop_defs draw_defs init_defs geometry_defs Let_def)

text \<open>
  C8.  \<^verbatim>\<open>spawn_window\<close> raises KeyError for every name that is not a key of the
  registry.  For every key it returns: a new application instance of that name sits in a
  new window (not drawn, not minimised, at the cascading position, under the next
  sequence number), and the window is appended to the z-order.
\<close>

lemma map_of_APP_MAP: "nm \<in> fst ` set APP_MAP \<Longrightarrow> map_of APP_MAP nm = Some nm"
  by (auto simp: APP_MAP_def)

theorem spawn_window_registry:
  "(nm \<notin> fst ` set APP_MAP \<longrightarrow> spawn_window s nm sz = Inl KeyError) \<and>
   (nm \<in> fst ` set APP_MAP \<longrightarrow>
      spawn_window s nm sz =
        Inr (s\<lparr>heap := (heap s)(seq s :=
                  new_window (new_app nm) nm
                    (Rect (180 + int (length (windows s)) * 16) (120 + int (length (windows s)) * 12)
                          (max MIN_W (fst sz)) (max MIN_H (snd sz)))
                    (seq s)),
               seq := Suc (seq s), windows := windows s @ [seq s]\<rparr>, seq s))"
proof (intro conjI impI)
  assume "nm \<notin> fst ` set APP_MAP"
  then have "map_of APP_MAP nm = None" by (simp add: map_of_eq_None_iff)
  then show "spawn_window s nm sz = Inl KeyError" by (simp add: spawn_window_def Let_def)
next
  assume "nm \<in> fst ` set APP_MAP"
  then have "map_of APP_MAP nm = Some nm" by (rule map_of_APP_MAP)
  then show "spawn_window s nm sz = Inr (s\<lparr>heap := (heap s)(seq s :=
                  new_window (new_app nm) nm
                    (Rect (180 + int (length (windows s)) * 16) (120 + int (length (windows s)) * 12)
                          (max MIN_W (fst sz)) (max MIN_H (snd sz)))
                    (seq s)),
               seq := Suc (seq s), windows := windows s @ [seq s]\<rparr>, seq s)"
    by (simp add: spawn_window_def Let_def focus_def new_app_def)
qed

theorem spawn_window_registry_witness:
  "''Paint'' \<notin> fst ` set APP_MAP \<and> spawn_window init_state ''Paint'' (520, 360) = Inl KeyError \<and>
   ''Sketch'' \<in> fst ` set APP_MAP \<and>
   map_sum id (\<lambda>p. (windows (fst p), snd p, app (heap (fst p) 1), wrect (heap (fst p) 1)))
     (spawn_window init_state ''Sketch'' (520, 360)) =
   Inr ([0, 1], 1, \<lparr>app_name = ''Sketch'', received = []\<rparr>, Rect 196 132 520 360)"
proof -
  have a: "''Paint'' \<notin> fst ` set APP_MAP" and b: "''Sketch'' \<in> fst ` set APP_MAP"
    by (simp_all add: APP_MAP_def)
  from a spawn_window_registry [of "''Paint''" init_state "(520, 360)"]
  have c: "spawn_window init_state ''Paint'' (520, 360) = Inl KeyError" by blast
  from b spawn_window_registry [of "''Sketch''" init_state "(520, 360)"]
  have "map_sum id (\<lambda>p. (windows (fst p), snd p, app (heap (fst p) 1), wrect (heap (fst p) 1)))
     (spawn_window init_state ''Sketch'' (520, 360)) =
   Inr ([0, 1], 1, \<lparr>app_name = ''Sketch'', received = []\<rparr>, Rect 196 132 520 360)"
    by (simp add: init_state_def fresh_state_def new_window_def new_app_def)
  with a b c show ?thesis by blast
qed

text \<open>
  C10.  \<^verbatim>\<open>close\<close> on a window that is not in the z-order list leaves the state as it
  is.  Consequently, in a z-order that holds no window twice (which is every z-order the
  desktop reaches, see C1), closing a window a second time changes nothing more.
\<close>

theorem close_absent_unchanged:
  "(win \<notin> set (windows s) \<longrightarrow> close s win = s) \<and>
   (distinct (windows s) \<longrightarrow> close (close s win) win = close s win)"
  by (simp add: close_def)

theorem close_absent_unchanged_witness:
  "5 \<notin> set (windows init_state) \<and> close init_state 5 = init_state \<and>
   distinct (windows init_state) \<and>
   close (close init_state 0) 0 = close init_state 0 \<and> windows (close init_state 0) = []"
proof -
  have a: "5 \<notin> set (windows init_state)" and d: "distinct (windows init_state)"
    by (simp_all add: init_state_def fresh_state_def)
  have e: "windows (close init_state 0) = []"
    by (simp add: close_def init_state_def fresh_state_def)
  from a d e close_absent_unchanged [of 5 init_state] close_absent_unchanged [of 0 init_state]
  show ?thesis by blast
qed

subsection \<open>Delivery of events by the main loop\<close>


lemma forward_all_minimized:
  "(\<forall>r \<in> set rs. minimized (heap s r)) \<Longrightarrow> forward_all s e rs = Inr s"
  by (induction rs) (simp_all add: window_handle_event_def)

lemma main_icons_idle:
  "(\<forall>i \<in> set (icons s). \<not> ico_dragging i) \<Longrightarrow> main_icons s e = s"
proof -
  assume a: "\<forall>i \<in> set (icons s). \<not> ico_dragging i"
  then have r: "map icon_release (icons s) = icons s"
    by (intro map_idI) (simp add: icon_release_def)
  from a have m: "\<And>pos. map (icon_motion pos) (icons s) = icons s"
    by (intro map_idI) (simp add: icon_motion_def)
  show ?thesis by (cases e) (simp_all add: main_icons_def r m)
qed

lemma main_icons_fields [simp]:
  "heap (main_icons s e) = heap s" "windows (main_icons s e) = windows s"
  "screen (main_icons s e) = screen s" "start_open (main_icons s e) = start_open s"
  by (cases e; simp add: main_icons_def)+




lemma global_keys_fields [simp]:
  "heap (global_keys s ev e) = heap s" "screen (global_keys s ev e) = screen s"
  "set (windows (global_keys s ev e)) = set (windows s)"
  "distinct (windows (global_keys s ev e)) = distinct (windows s)"
  by (cases e; auto simp: global_keys_def Let_def split: list.splits)+


lemma play_snoc:
  "play s (evss @ [evs]) = (case play s evss of Inl err \<Rightarrow> Inl err | Inr s1 \<Rightarrow> tick s1 evs)"
  by (induction evss arbitrary: s) (auto split: sum.splits)




subsection \<open>Sleeping\<close>

text \<open>
  While the desktop sleeps, \<^verbatim>\<open>Desktop.handle_event\<close> changes nothing but the sleeping
  flag, which a button press or a key press clears.  The pass of the main loop changes
  nothing else either when every window is minimised (as the Sleep action leaves them) and
  no icon is being dragged.
\<close>

lemma sleeping_events:
  assumes "sleeping s"
  shows "desktop_handle_event s ev e = Inr (if is_wake e then s\<lparr>sleeping := False\<rparr> else s) \<and>
     ((\<forall>r \<in> set (windows s). minimized (heap s r)) \<and> (\<forall>i \<in> set (icons s). \<not> ico_dragging i) \<and>
      e \<noteq> QUIT \<and> (\<forall>w h. e \<noteq> VIDEORESIZE w h) \<longrightarrow>
        process_event s ev e = Inr (if is_wake e then s\<lparr>sleeping := False\<rparr> else s))"
proof (intro conjI impI)
  show d: "desktop_handle_event s ev e = Inr (if is_wake e then s\<lparr>sleeping := False\<rparr> else s)"
    using assms by (simp add: desktop_handle_event_def)
  assume h: "(\<forall>r \<in> set (windows s). minimized (heap s r)) \<and> (\<forall>i \<in> set (icons s). \<not> ico_dragging i) \<and>
      e \<noteq> QUIT \<and> (\<forall>w h. e \<noteq> VIDEORESIZE w h)"
  let ?s1 = "if is_wake e then s\<lparr>sleeping := False\<rparr> else s"
  from h have i: "main_icons ?s1 e = ?s1" by (intro main_icons_idle) simp
  from h have m: "forward_all ?s1 e (windows ?s1) = Inr ?s1" by (intro forward_all_minimized) simp
  have d': "\<And>x. desktop_handle_event s ev x = Inr (if is_wake x then s\<lparr>sleeping := False\<rparr> else s)"
    using assms by (simp add: desktop_handle_event_def)
  from h have "process_event s ev e = forward_all (main_icons ?s1 e) e (windows (main_icons ?s1 e))"
    by (cases e) (simp_all add: process_event_def d')
  with i m show "process_event s ev e = Inr ?s1" by simp
qed

text \<open>
  C6.  The claim is that while the desktop sleeps no event changes the state of any
  window, application, icon or menu.  The main loop runs its icon code after
  \<^verbatim>\<open>Desktop.handle_event\<close> without looking at the sleeping flag, so the code breaks the
  claim: after a press on the first icon and, with no release in between, a press on the
  Sleep action, the desktop sleeps with the icon still held, and the next pointer motion
  moves the icon from \<open>(24, 24)\<close> to \<open>(894, 594)\<close> while the desktop stays asleep.
\<close>

theorem icon_moves_while_sleeping:
  "map_sum id (\<lambda>s. (sleeping s, ico_rect (icons s ! 0)))
     (play init_state sleep_with_icon_held) = Inr (True, Rect 24 24 64 64) \<and>
   map_sum id (\<lambda>s. (sleeping s, ico_rect (icons s ! 0)))
     (play init_state (sleep_with_icon_held @ [[(at_time 104 (900, 600), MOUSEMOTION (900, 600))]])) =
   Inr (True, Rect 894 594 64 64)"
  by (simp add: sleep_with_icon_held_def at_time_def tick_def desktop_defs draw_defs init_defs geometry_defs Let_def)

subsection \<open>The power dialog\<close>

lemma reordered_refl [simp]: "reordered s s"
  by (simp add: reordered_def)

lemma reordered_trans: "reordered s s1 \<Longrightarrow> reordered s1 s2 \<Longrightarrow> reordered s s2"
proof -
  assume a: "reordered s s1" and b: "reordered s1 s2"
  from a have e1: "s1 = s\<lparr>windows := windows s1, start_open := start_open s1\<rparr>"
    and m1: "set (windows s1) = set (windows s)" by (simp_all add: reordered_def)
  from b have e2: "s2 = s1\<lparr>windows := windows s2, start_open := start_open s2\<rparr>"
    and m2: "set (windows s2) = set (windows s1)" by (simp_all add: reordered_def)
  from e2 have "s2 = (s\<lparr>windows := windows s1, start_open := start_open s1\<rparr>)
       \<lparr>windows := windows s2, start_open := start_open s2\<rparr>"
    using e1 by simp
  then have "s2 = s\<lparr>windows := windows s2, start_open := start_open s2\<rparr>" by simp
  with m1 m2 show ?thesis by (simp add: reordered_def)
qed

lemma insert_remove1: "r \<in> set ws \<Longrightarrow> insert r (set (remove1 r ws)) = set ws"
  by (induction ws) auto

lemma focus_reordered: "focus s r = Inr s1 \<Longrightarrow> reordered s s1"
  by (auto simp: focus_def reordered_def insert_remove1 split: if_splits)

lemma and_then_cont:
  "and_then r f = Inr (Continue s1) \<Longrightarrow> \<exists>s0. r = Inr (Continue s0) \<and> f s0 = Inr (Continue s1)"
  by (auto simp: and_then_def split: sum.splits flow.splits)

lemma click_start_cont: "click_start s m = Inr (Continue s1) \<Longrightarrow> s1 = s"
  by (auto simp: click_start_def split: option.splits if_splits)

lemma click_menu_cont: "click_menu s m = Inr (Continue s1) \<Longrightarrow> reordered s s1"
  by (auto simp: click_menu_def reordered_def split: option.splits if_splits sum.splits prod.splits)

lemma click_icons_cont: "click_icons s m t = Inr (Continue s1) \<Longrightarrow> s1 = s"
  by (auto simp: click_icons_def Let_def split: option.splits if_splits sum.splits prod.splits)

lemma returning_not_cont: "returning r \<noteq> Inr (Continue s1)"
  by (simp add: returning_def split: sum.splits)

lemma click_taskbar_cont: "click_taskbar s m = Inr (Continue s1) \<Longrightarrow> s1 = s"
  by (auto simp: click_taskbar_def returning_not_cont split: option.splits if_splits)

lemma continuing_focus: "continuing (focus s r) = Inr (Continue s1) \<Longrightarrow> reordered s s1"
  by (auto simp: continuing_def focus_reordered split: sum.splits)

lemma click_windows_cont: "click_windows s m rs = Inr (Continue s1) \<Longrightarrow> reordered s s1"
proof (induction rs)
  case Nil
  then show ?case by simp
next
  case (Cons r rs)
  show ?case
  proof (cases "\<not> minimized (heap s r) \<and> collidepoint (wrect (heap s r)) m")
    case False
    with Cons show ?thesis by (auto split: if_splits)
  next
    case True
    with Cons.prems have "continuing (focus s r) = Inr (Continue s1)"
      by (auto simp: returning_not_cont split: if_splits sum.splits option.splits label.splits)
    then show ?thesis by (rule continuing_focus)
  qed
qed

lemma click_phase_cont: "click_phase s ev e = Inr (Continue s1) \<Longrightarrow> reordered s s1"
proof (cases "\<exists>pos. e = MOUSEBUTTONDOWN 1 pos")
  case False
  assume "click_phase s ev e = Inr (Continue s1)"
  with False have "s1 = s" by (cases e) (auto simp: click_phase_def split: if_splits)
  then show ?thesis by simp
next
  case True
  assume c: "click_phase s ev e = Inr (Continue s1)"
  from True obtain pos where e: "e = MOUSEBUTTONDOWN 1 pos" by blast
  from c e obtain a where a: "click_start s (mouse ev) = Inr (Continue a)"
    and c1: "and_then (click_menu a (mouse ev)) (\<lambda>s.
             and_then (click_icons s (mouse ev) (now ev)) (\<lambda>s.
             and_then (click_taskbar s (mouse ev)) (\<lambda>s.
             click_windows s (mouse ev) (rev (windows s))))) = Inr (Continue s1)"
    by (auto simp: click_phase_def dest: and_then_cont)
  from c1 obtain b where b: "click_menu a (mouse ev) = Inr (Continue b)"
    and c2: "and_then (click_icons b (mouse ev) (now ev)) (\<lambda>s.
             and_then (click_taskbar s (mouse ev)) (\<lambda>s.
             click_windows s (mouse ev) (rev (windows s)))) = Inr (Continue s1)"
    by (auto dest: and_then_cont)
  from c2 obtain c' where c': "click_icons b (mouse ev) (now ev) = Inr (Continue c')"
    and c3: "and_then (click_taskbar c' (mouse ev)) (\<lambda>s.
             click_windows s (mouse ev) (rev (windows s))) = Inr (Continue s1)"
    by (auto dest: and_then_cont)
  from c3 obtain d where d: "click_taskbar c' (mouse ev) = Inr (Continue d)"
    and c4: "click_windows d (mouse ev) (rev (windows d)) = Inr (Continue s1)"
    by (auto dest: and_then_cont)
  from a have "a = s" by (rule click_start_cont)
  moreover from b have "reordered a b" by (rule click_menu_cont)
  moreover from c' have "c' = b" by (rule click_icons_cont)
  moreover from d have "d = c'" by (rule click_taskbar_cont)
  moreover from c4 have "reordered d s1" by (rule click_windows_cont)
  ultimately show ?thesis by (auto intro: reordered_trans)
qed

lemma power_loop_hit:
  "collidepoint (power_action_rect pr 0) pos \<Longrightarrow> power_loop s pr pos power_labels = power_cmd s Shutdown"
  "collidepoint (power_action_rect pr 1) pos \<Longrightarrow> power_loop s pr pos power_labels = power_cmd s Restart"
  "collidepoint (power_action_rect pr 2) pos \<Longrightarrow> power_loop s pr pos power_labels = power_cmd s Sleep"
  "collidepoint (power_action_rect pr 3) pos \<Longrightarrow> power_loop s pr pos power_labels = power_cmd s Cancel"
  by (simp_all add: power_labels_def power_action_rect_def collidepoint_def Rect_def)

lemma fold_minimize:
  "fold (\<lambda>r s. upd_win r (\<lambda>w. w\<lparr>minimized := True\<rparr>) s) rs s =
     s\<lparr>heap := (\<lambda>r. if r \<in> set rs then (heap s r)\<lparr>minimized := True\<rparr> else heap s r)\<rparr>"
proof (induction rs arbitrary: s)
  case Nil
  then show ?case by simp
next
  case (Cons a rs)
  let ?f = "\<lambda>r s. upd_win r (\<lambda>w. w\<lparr>minimized := True\<rparr>) s"
  let ?s1 = "upd_win a (\<lambda>w. w\<lparr>minimized := True\<rparr>) s"
  have "fold ?f (a # rs) s = fold ?f rs ?s1" by simp
  also have "\<dots> = ?s1\<lparr>heap := (\<lambda>r. if r \<in> set rs then (heap ?s1 r)\<lparr>minimized := True\<rparr>
                                   else heap ?s1 r)\<rparr>"
    by (rule Cons.IH)
  also have "\<dots> = s\<lparr>heap := (\<lambda>r. if r \<in> set (a # rs) then (heap s r)\<lparr>minimized := True\<rparr>
                                 else heap s r)\<rparr>"
    by (auto simp: upd_win_def fun_eq_iff)
  finally show ?case .
qed

lemma minimize_all_eq:
  "minimize_all s =
     s\<lparr>heap := (\<lambda>r. if r \<in> set (windows s) then (heap s r)\<lparr>minimized := True\<rparr> else heap s r)\<rparr>"
  by (simp add: minimize_all_def fold_minimize)

text \<open>
  When the left-click chain of \<^verbatim>\<open>Desktop.handle_event\<close> falls through, it has changed at
  most the order of the z-order and the start-menu flag, and a press on an action of the
  open power dialog does what the action says: Shutdown exits, Restart empties the z-order
  and spawns the Notes window, Sleep minimises every window and sets the sleeping flag,
  Cancel only closes the dialog.
\<close>

lemma power_dialog_actions:
  assumes ns: "\<not> sleeping s" and po: "power_open s" and pr: "power_rect s = Some pr"
    and cp: "click_phase s ev (MOUSEBUTTONDOWN 1 pos) = Inr (Continue s1)"
  shows "reordered s s1"
    and "collidepoint (power_action_rect pr 0) pos \<Longrightarrow>
           desktop_handle_event s ev (MOUSEBUTTONDOWN 1 pos) = Inl SystemExit"
    and "collidepoint (power_action_rect pr 1) pos \<Longrightarrow>
           desktop_handle_event s ev (MOUSEBUTTONDOWN 1 pos) =
             Inr (s1\<lparr>power_open := False,
                     heap := (heap s1)(seq s1 :=
                       new_window (new_app ''Notes'') ''Notes'' (Rect 180 120 540 420) (seq s1)),
                     seq := Suc (seq s1), windows := [seq s1]\<rparr>)"
    and "collidepoint (power_action_rect pr 2) pos \<Longrightarrow>
           desktop_handle_event s ev (MOUSEBUTTONDOWN 1 pos) =
             Inr (s1\<lparr>power_open := False, sleeping := True,
                     heap := (\<lambda>r. if r \<in> set (windows s1) then (heap s1 r)\<lparr>minimized := True\<rparr>
                                   else heap s1 r)\<rparr>)"
    and "collidepoint (power_action_rect pr 3) pos \<Longrightarrow>
           desktop_handle_event s ev (MOUSEBUTTONDOWN 1 pos) = Inr (s1\<lparr>power_open := False\<rparr>)"
proof -
  show r: "reordered s s1" using cp by (rule click_phase_cont)
  then have e: "s1 = s\<lparr>windows := windows s1, start_open := start_open s1\<rparr>"
    by (simp add: reordered_def)
  have po1: "power_open s1" and pr1: "power_rect s1 = Some pr"
    using po pr by (subst e, simp)+
  have d: "desktop_handle_event s ev (MOUSEBUTTONDOWN 1 pos) =
      (case power_loop s1 pr pos power_labels of
         Inl err \<Rightarrow> Inl err
       | Inr (Return s2) \<Rightarrow> Inr s2
       | Inr (Continue s2) \<Rightarrow>
           (case forward_focused s2 (MOUSEBUTTONDOWN 1 pos) (mouse ev) (rev (windows s2)) of
              Inl err \<Rightarrow> Inl err
            | Inr s3 \<Rightarrow> Inr (global_keys s3 ev (MOUSEBUTTONDOWN 1 pos))))"
    using ns cp po1 pr1 by (simp add: desktop_handle_event_def and_then_def power_phase_def)
  show "collidepoint (power_action_rect pr 0) pos \<Longrightarrow>
           desktop_handle_event s ev (MOUSEBUTTONDOWN 1 pos) = Inl SystemExit"
    by (simp add: d power_loop_hit power_cmd_def)
  show "collidepoint (power_action_rect pr 1) pos \<Longrightarrow>
           desktop_handle_event s ev (MOUSEBUTTONDOWN 1 pos) =
             Inr (s1\<lparr>power_open := False,
                     heap := (heap s1)(seq s1 :=
                       new_window (new_app ''Notes'') ''Notes'' (Rect 180 120 540 420) (seq s1)),
                     seq := Suc (seq s1), windows := [seq s1]\<rparr>)"
    by (simp add: d power_loop_hit power_cmd_def spawn_window_def focus_def APP_MAP_def new_app_def Let_def)
  show "collidepoint (power_action_rect pr 2) pos \<Longrightarrow>
           desktop_handle_event s ev (MOUSEBUTTONDOWN 1 pos) =
             Inr (s1\<lparr>power_open := False, sleeping := True,
                     heap := (\<lambda>r. if r \<in> set (windows s1) then (heap s1 r)\<lparr>minimized := True\<rparr>
                                   else heap s1 r)\<rparr>)"
    by (simp add: d power_loop_hit power_cmd_def minimize_all_eq Let_def cong: if_cong)
  show "collidepoint (power_action_rect pr 3) pos \<Longrightarrow>
           desktop_handle_event s ev (MOUSEBUTTONDOWN 1 pos) = Inr (s1\<lparr>power_open := False\<rparr>)"
    by (simp add: d power_loop_hit power_cmd_def Let_def)
qed

text \<open>
  C7.  The claim is that a click on an action rectangle of the open power dialog closes
  the dialog and performs exactly that action.  \<^verbatim>\<open>Desktop.handle_event\<close> tests the
  sleeping flag first, but reaches the power dialog only after the left-click chain, in
  which an icon, a taskbar button or a title button under the pointer returns first.  So
  the code breaks the claim: with the first icon dragged to \<open>(460, 340)\<close> and the dialog
  open, a press at \<open>(480, 350)\<close>, inside the Shutdown rectangle, starts a drag of the icon;
  the program does not exit and the dialog stays open.
\<close>

theorem shutdown_click_taken_by_icon:
  "map_sum id (\<lambda>s. (power_open s, power_rect s, ico_rect (icons s ! 0), ico_dragging (icons s ! 0)))
     (play init_state icon_under_shutdown) =
   Inr (True, Some (Rect 430 270 420 180), Rect 460 340 64 64, False) \<and>
   collidepoint (power_action_rect (Rect 430 270 420 180) 0) (480, 350) \<and>
   map_sum id (\<lambda>s. (power_open s, running s, ico_dragging (icons s ! 0)))
     (play init_state
        (icon_under_shutdown @ [[(at_time 105 (480, 350), MOUSEBUTTONDOWN 1 (480, 350))]])) =
   Inr (True, True, True)"
  by (simp add: icon_under_shutdown_def at_time_def power_action_rect_def tick_def desktop_defs draw_defs init_defs geometry_defs Let_def)

subsection \<open>How often a window handles an event\<close>


text \<open>\<^verbatim>\<open>Desktop.handle_event\<close> keeps the z-order free of duplicates.\<close>

lemma wfz_fields [simp]:
  "wfz (s\<lparr>start_open := a\<rparr>) = wfz s" "wfz (s\<lparr>power_open := b\<rparr>) = wfz s"
  "wfz (s\<lparr>sleeping := c\<rparr>) = wfz s" "wfz (s\<lparr>icons := d\<rparr>) = wfz s"
  "wfz (s\<lparr>drag_icon := e\<rparr>) = wfz s" "wfz (s\<lparr>heap := f\<rparr>) = wfz s"
  "wfz (upd_win r g s) = wfz s"
  by (simp_all add: wfz_def upd_win_def)













lemma wfz_minimize_all [simp]: "wfz (minimize_all s) = wfz s"
  by (simp add: minimize_all_eq)





lemma wfz_global_keys [simp]: "wfz (global_keys s ev e) = wfz s"
  by (cases e) (auto simp: global_keys_def wfz_def Let_def split: list.splits)






end
